theory Spec2Isabelle
  imports Main "HOL-Library.Word" "HOL-Library.Code_Target_Nat"
begin

section \<open>The static array arena of sara.c\<close>

text \<open>
  The allocator of \<^verbatim>\<open>src/src/sara.c\<close> keeps one global \<^verbatim>\<open>ArrayArena\<close>: six
  block lists (1024, 512, 256, 128, 64 and 32 bytes, in that order), each a statically
  sized array of descriptors with a running length, a flag that records initialisation
  and the counter \<^verbatim>\<open>space_available\<close>. The bytes handed out live in the global
  \<^verbatim>\<open>ArrayArenaPool\<close>.

  Conventions of the embedding:
  \<^item> a pointer is \<open>None\<close> for \<^verbatim>\<open>NULL\<close> and \<open>Some k\<close> for
    \<^verbatim>\<open>&ArrayArenaPool[k]\<close>, the byte offset \<open>k\<close> counted in a flat address space;
  \<^item> \<^verbatim>\<open>size_t\<close> is taken 64 bits wide, and the additions and subtractions on
    \<^verbatim>\<open>space_available\<close> and on the running offset wrap accordingly;
  \<^item> the macro \<^verbatim>\<open>VEC_ARRAY_ARENA_SIZE\<close> is not defined in the file and is a parameter,
    as is the choice between the debug build and the release build
    (\<^verbatim>\<open>NDEBUG\<close>), which decides whether \<^verbatim>\<open>assert\<close> does anything;
  \<^item> a failed assertion and an access outside an array end the run with a fault
    (\<open>Inl\<close>); every function returns \<open>fault + result\<close>.
\<close>

record build_cfg =
  VEC_ARRAY_ARENA_SIZE :: nat
  NDEBUG :: bool

datatype fault = AssertionFailed | UndefinedBehaviour

definition SIZE_T_MOD :: nat where
  "SIZE_T_MOD = 2 ^ 64"

definition size_t_add :: "nat \<Rightarrow> nat \<Rightarrow> nat" where
  "size_t_add a b = (a + b) mod SIZE_T_MOD"

definition size_t_sub :: "nat \<Rightarrow> nat \<Rightarrow> nat" where
  "size_t_sub a b = (if b \<le> a then a - b else (a + SIZE_T_MOD - b) mod SIZE_T_MOD)"

subsection \<open>Capacities and initial lengths (the macros at the head of the file)\<close>

definition BLOCKS_1024_LIST_CAPACITY :: "nat \<Rightarrow> nat" where
  "BLOCKS_1024_LIST_CAPACITY A = A div 1024 + 1"

definition BLOCKS_512_LIST_CAPACITY :: "nat \<Rightarrow> nat" where
  "BLOCKS_512_LIST_CAPACITY A = A div 512 + 1"

definition BLOCKS_256_LIST_CAPACITY :: "nat \<Rightarrow> nat" where
  "BLOCKS_256_LIST_CAPACITY A = A div 256 + 1"

definition BLOCKS_128_LIST_CAPACITY :: "nat \<Rightarrow> nat" where
  "BLOCKS_128_LIST_CAPACITY A = A div 128 + 1"

definition BLOCKS_64_LIST_CAPACITY :: "nat \<Rightarrow> nat" where
  "BLOCKS_64_LIST_CAPACITY A = A div 64 + 1"

definition BLOCKS_32_LIST_CAPACITY :: "nat \<Rightarrow> nat" where
  "BLOCKS_32_LIST_CAPACITY A = A div 32 + 1"

text \<open>The default initial lengths (\<^verbatim>\<open>USE_EXTERNAL_INIT_LENS\<close> not defined).\<close>

definition BLOCKS_1024_LIST_INIT_LEN :: "nat \<Rightarrow> nat" where
  "BLOCKS_1024_LIST_INIT_LEN A = A div 1024 + 1"

definition BLOCKS_512_LIST_INIT_LEN :: "nat \<Rightarrow> nat" where
  "BLOCKS_512_LIST_INIT_LEN A = (A mod 1024) div 512 + 1"

definition BLOCKS_256_LIST_INIT_LEN :: "nat \<Rightarrow> nat" where
  "BLOCKS_256_LIST_INIT_LEN A = (A mod 512) div 256 + 1"

definition BLOCKS_128_LIST_INIT_LEN :: "nat \<Rightarrow> nat" where
  "BLOCKS_128_LIST_INIT_LEN A = (A mod 256) div 128 + 1"

definition BLOCKS_64_LIST_INIT_LEN :: "nat \<Rightarrow> nat" where
  "BLOCKS_64_LIST_INIT_LEN A = (A mod 128) div 64 + 1"

definition BLOCKS_32_LIST_INIT_LEN :: "nat \<Rightarrow> nat" where
  "BLOCKS_32_LIST_INIT_LEN A = (A mod 64) div 32 + 1"

definition NUM_OF_BLOCK_SIZES :: nat where
  "NUM_OF_BLOCK_SIZES = 6"

definition BLKS_LARGEST_SIZE :: nat where
  "BLKS_LARGEST_SIZE = 0"

definition BlockSize_E_to_Int :: "nat list" where
  "BlockSize_E_to_Int = [1024, 512, 256, 128, 64, 32]"

subsection \<open>The data structures\<close>

record ArrayPoolBlock_S =
  ptr :: "nat option"
  is_free :: bool

record ArrayPoolBlockList_S =
  blocks :: "ArrayPoolBlock_S list"
  block_size :: nat
  len :: nat

record ArrayArena_S =
  lists :: "ArrayPoolBlockList_S list"
  arena_initialized :: bool
  space_available :: nat

text \<open>A descriptor array in static storage starts zeroed.\<close>

definition zero_blocks :: "nat \<Rightarrow> ArrayPoolBlock_S list" where
  "zero_blocks n = replicate n \<lparr>ptr = None, is_free = False\<rparr>"

text \<open>The initialiser of the global \<^verbatim>\<open>ArrayArena\<close>.\<close>

definition ArrayArena :: "build_cfg \<Rightarrow> ArrayArena_S" where
  "ArrayArena cfg =
     (let A = VEC_ARRAY_ARENA_SIZE cfg in
      \<lparr>lists =
         [\<lparr>blocks = zero_blocks (BLOCKS_1024_LIST_CAPACITY A), block_size = 1024,
            len = BLOCKS_1024_LIST_INIT_LEN A - 1\<rparr>,
          \<lparr>blocks = zero_blocks (BLOCKS_512_LIST_CAPACITY A), block_size = 512,
            len = BLOCKS_512_LIST_INIT_LEN A - 1\<rparr>,
          \<lparr>blocks = zero_blocks (BLOCKS_256_LIST_CAPACITY A), block_size = 256,
            len = BLOCKS_256_LIST_INIT_LEN A - 1\<rparr>,
          \<lparr>blocks = zero_blocks (BLOCKS_128_LIST_CAPACITY A), block_size = 128,
            len = BLOCKS_128_LIST_INIT_LEN A - 1\<rparr>,
          \<lparr>blocks = zero_blocks (BLOCKS_64_LIST_CAPACITY A), block_size = 64,
            len = BLOCKS_64_LIST_INIT_LEN A - 1\<rparr>,
          \<lparr>blocks = zero_blocks (BLOCKS_32_LIST_CAPACITY A), block_size = 32,
            len = BLOCKS_32_LIST_INIT_LEN A - 1\<rparr>],
       arena_initialized = False,
       space_available = A - A mod 32\<rparr>)"

text \<open>
  The global \<^verbatim>\<open>ArrayArenaPool\<close>: the byte at each offset, zeroed at program start.
  The array has \<^verbatim>\<open>VEC_ARRAY_ARENA_SIZE\<close> bytes; offsets from there on are outside it.
\<close>

definition ArrayArenaPool :: "nat \<Rightarrow> 8 word" where
  "ArrayArenaPool = (\<lambda>k. 0)"

subsection \<open>StaticArrayPoolInit\<close>

text \<open>
  The inner loop over \<open>j\<close>: one descriptor per round, at the running offset. Both
  assertions of the loop body are kept for the debug build.
\<close>

fun init_blocks_loop ::
  "build_cfg \<Rightarrow> nat \<Rightarrow> nat list \<Rightarrow> ArrayPoolBlock_S list \<times> nat \<Rightarrow>
   fault + (ArrayPoolBlock_S list \<times> nat)" where
  "init_blocks_loop cfg bs [] (blks, off) = Inr (blks, off)"
| "init_blocks_loop cfg bs (j # js) (blks, off) =
     (if \<not> NDEBUG cfg \<and> \<not> off < VEC_ARRAY_ARENA_SIZE cfg then Inl AssertionFailed
      else if length blks \<le> j then Inl UndefinedBehaviour
      else if \<not> NDEBUG cfg \<and> \<not> size_t_add off bs \<le> VEC_ARRAY_ARENA_SIZE cfg
        then Inl AssertionFailed
      else init_blocks_loop cfg bs js
             (blks[j := \<lparr>ptr = Some off, is_free = True\<rparr>], size_t_add off bs))"

text \<open>The outer loop over the six lists, threading the offset.\<close>

fun init_lists_loop ::
  "build_cfg \<Rightarrow> ArrayPoolBlockList_S list \<Rightarrow> nat \<Rightarrow>
   fault + (ArrayPoolBlockList_S list \<times> nat)" where
  "init_lists_loop cfg [] off = Inr ([], off)"
| "init_lists_loop cfg (l # ls) off =
     (case init_blocks_loop cfg (block_size l) [0..<len l] (blocks l, off) of
        Inl e \<Rightarrow> Inl e
      | Inr (blks, off') \<Rightarrow>
          (case init_lists_loop cfg ls off' of
             Inl e \<Rightarrow> Inl e
           | Inr (ls', off'') \<Rightarrow> Inr (l\<lparr>blocks := blks\<rparr> # ls', off'')))"

definition StaticArrayPoolInit :: "build_cfg \<Rightarrow> ArrayArena_S \<Rightarrow> fault + ArrayArena_S" where
  "StaticArrayPoolInit cfg s =
     (if \<not> NDEBUG cfg \<and> arena_initialized s then Inl AssertionFailed
      else case init_lists_loop cfg (lists s) 0 of
             Inl e \<Rightarrow> Inl e
           | Inr (ls, off) \<Rightarrow> Inr (s\<lparr>lists := ls, arena_initialized := True\<rparr>))"

definition StaticArrayPoolIsInitialized :: "ArrayArena_S \<Rightarrow> bool" where
  "StaticArrayPoolIsInitialized s = arena_initialized s"

subsection \<open>StaticArrayAlloc\<close>

text \<open>
  The debug-only check of lines 168 to 173: each list's block size must exceed its
  predecessor's.
\<close>

fun sizes_check :: "nat \<Rightarrow> ArrayPoolBlockList_S list \<Rightarrow> bool" where
  "sizes_check prev_sz [] = True"
| "sizes_check prev_sz (l # ls) = (prev_sz < block_size l \<and> sizes_check (block_size l) ls)"

text \<open>
  The scan of the selected list (lines 194 to 203). The loop has no \<^verbatim>\<open>break\<close>: it
  visits every index below \<^verbatim>\<open>len\<close>. The state is the descriptor array,
  \<^verbatim>\<open>found_block\<close>, \<^verbatim>\<open>block_ptr\<close> and \<^verbatim>\<open>space_allocated\<close>.
\<close>

fun scan_loop ::
  "nat \<Rightarrow> nat list \<Rightarrow> ArrayPoolBlock_S list \<times> bool \<times> nat option \<times> nat \<Rightarrow>
   fault + (ArrayPoolBlock_S list \<times> bool \<times> nat option \<times> nat)" where
  "scan_loop bs [] st = Inr st"
| "scan_loop bs (i # is) (blks, found, bp, sa) =
     (if length blks \<le> i then Inl UndefinedBehaviour
      else if is_free (blks ! i)
        then scan_loop bs is (blks[i := (blks ! i)\<lparr>is_free := False\<rparr>], True, ptr (blks ! i), bs)
      else scan_loop bs is (blks, found, bp, sa))"

text \<open>
  The split loop (lines 216 to 231), \<open>i\<close> running from the other list's last index down
  to 0, again without \<^verbatim>\<open>break\<close>. The state is the other list
  (\<^verbatim>\<open>larger_size_list\<close>), the selected list, \<^verbatim>\<open>found_block\<close>,
  \<^verbatim>\<open>block_ptr\<close> and \<^verbatim>\<open>space_allocated\<close>. Adding to a null pointer and
  writing past the selected list's array are faults. The start index is
  \<^verbatim>\<open>(int)(len - 1)\<close>, read once before the loop: \<open>-1\<close> for an empty list, so
  that the loop does not run, and the indices \<open>len - 1\<close> down to 0 otherwise.
\<close>

fun split_loop ::
  "nat list \<Rightarrow> ArrayPoolBlockList_S \<times> ArrayPoolBlockList_S \<times> bool \<times> nat option \<times> nat \<Rightarrow>
   fault + (ArrayPoolBlockList_S \<times> ArrayPoolBlockList_S \<times> bool \<times> nat option \<times> nat)" where
  "split_loop [] st = Inr st"
| "split_loop (i # is) (larger, lst, found, bp, sa) =
     (if length (blocks larger) \<le> i then Inl UndefinedBehaviour
      else if \<not> is_free (blocks larger ! i) then split_loop is (larger, lst, found, bp, sa)
      else if length (blocks lst) \<le> len lst + 1 then Inl UndefinedBehaviour
      else (case ptr (blocks larger ! i) of
              None \<Rightarrow> Inl UndefinedBehaviour
            | Some a \<Rightarrow>
                (let larger' = larger\<lparr>len := len larger - 1\<rparr>;
                     blks = (blocks lst)
                       [len lst := \<lparr>ptr = Some a, is_free = False\<rparr>,
                        len lst + 1 := \<lparr>ptr = Some (a + block_size larger), is_free = True\<rparr>];
                     lst' = lst\<lparr>blocks := blks, len := len lst + 2\<rparr>
                 in split_loop is
                      (larger', lst', True, ptr (blocks lst' ! (len lst' - 2)), block_size lst'))))"

text \<open>
  The body of the loop over \<open>sz\<close> once a list is selected (lines 188 to 234): scan it,
  and when nothing was found and \<open>sz\<close> is not \<^verbatim>\<open>BLKS_LARGEST_SIZE\<close>, run the split
  loop on \<^verbatim>\<open>lists[sz + 1]\<close>. Index 6 is outside the array of lists.
\<close>

definition alloc_in_list ::
  "nat \<Rightarrow> ArrayArena_S \<Rightarrow> fault + (nat option \<times> nat \<times> ArrayArena_S)" where
  "alloc_in_list sz s =
     (let lst = lists s ! sz in
      case scan_loop (block_size lst) [0..<len lst] (blocks lst, False, None, 0) of
        Inl e \<Rightarrow> Inl e
      | Inr (blks, found, bp, sa) \<Rightarrow>
          (if \<not> found \<and> sz \<noteq> BLKS_LARGEST_SIZE then
             (if NUM_OF_BLOCK_SIZES \<le> sz + 1 then Inl UndefinedBehaviour
              else (let larger = lists s ! (sz + 1) in
                    case split_loop (rev [0..<len larger])
                           (larger, lst\<lparr>blocks := blks\<rparr>, found, bp, sa) of
                      Inl e \<Rightarrow> Inl e
                    | Inr (larger', lst', found', bp', sa') \<Rightarrow>
                        Inr (bp', sa', s\<lparr>lists := (lists s)[sz := lst', sz + 1 := larger']\<rparr>)))
           else Inr (bp, sa, s\<lparr>lists := (lists s)[sz := lst\<lparr>blocks := blks\<rparr>]\<rparr>)))"

text \<open>
  The loop over \<open>sz\<close> (line 183): skip while the request is below half the block size,
  then handle the first list that is not skipped and leave the loop.
\<close>

fun alloc_sz_loop ::
  "nat \<Rightarrow> nat list \<Rightarrow> ArrayArena_S \<Rightarrow> fault + (nat option \<times> nat \<times> ArrayArena_S)" where
  "alloc_sz_loop req_bytes [] s = Inr (None, 0, s)"
| "alloc_sz_loop req_bytes (sz # szs) s =
     (if req_bytes < block_size (lists s ! sz) div 2 then alloc_sz_loop req_bytes szs s
      else alloc_in_list sz s)"

definition StaticArrayAlloc ::
  "build_cfg \<Rightarrow> nat \<Rightarrow> ArrayArena_S \<Rightarrow> fault + (nat option \<times> ArrayArena_S)" where
  "StaticArrayAlloc cfg req_bytes s =
     (if \<not> NDEBUG cfg \<and> \<not> arena_initialized s then Inl AssertionFailed
      else if space_available s < req_bytes then Inr (None, s)
      else if \<not> NDEBUG cfg \<and> \<not> sizes_check (block_size (lists s ! 0)) (tl (lists s))
        then Inl AssertionFailed
      else if \<not> NDEBUG cfg \<and> \<not> req_bytes \<le> 1024 then Inl AssertionFailed
      else (case alloc_sz_loop req_bytes [0..<NUM_OF_BLOCK_SIZES] s of
              Inl e \<Rightarrow> Inl e
            | Inr (block_ptr, space_allocated, s') \<Rightarrow>
                Inr (block_ptr,
                     s'\<lparr>space_available := size_t_sub (space_available s') space_allocated\<rparr>)))"

subsection \<open>Helper_FindBlock\<close>

text \<open>
  The two nested loops visit the positions \<open>(sz, i)\<close> with \<open>i\<close> below the list's
  length, list by list.
\<close>

definition positions :: "ArrayPoolBlockList_S list \<Rightarrow> (nat \<times> nat) list" where
  "positions ls =
     concat (map (\<lambda>sz. map (Pair sz) [0..<len (ls ! sz)]) [0..<NUM_OF_BLOCK_SIZES])"

text \<open>
  The release build returns at the first descriptor whose pointer equals the argument.
  The debug build keeps going, asserts that no second one turns up and answers with
  the one it found. \<open>acc\<close> is the debug build's \<^verbatim>\<open>blk_found\<close> together with the
  output parameters.
\<close>

fun find_loop ::
  "build_cfg \<Rightarrow> ArrayPoolBlockList_S list \<Rightarrow> nat option \<Rightarrow> (nat \<times> nat) list \<Rightarrow>
   (nat \<times> nat) option \<Rightarrow> fault + (nat \<times> nat) option" where
  "find_loop cfg ls p [] acc = Inr (if NDEBUG cfg then None else acc)"
| "find_loop cfg ls p ((sz, i) # rest) acc =
     (if length (blocks (ls ! sz)) \<le> i then Inl UndefinedBehaviour
      else if ptr (blocks (ls ! sz) ! i) = p then
        (if NDEBUG cfg then Inr (Some (sz, i))
         else if acc \<noteq> None then Inl AssertionFailed
         else find_loop cfg ls p rest (Some (sz, i)))
      else find_loop cfg ls p rest acc)"

definition Helper_FindBlock ::
  "build_cfg \<Rightarrow> nat option \<Rightarrow> ArrayArena_S \<Rightarrow> fault + (nat \<times> nat) option" where
  "Helper_FindBlock cfg p s =
     (if \<not> NDEBUG cfg \<and> \<not> arena_initialized s then Inl AssertionFailed
      else if p = None then Inr None
      else find_loop cfg (lists s) p (positions (lists s)) None)"

subsection \<open>StaticArrayFree and StaticArrayIsAlloc\<close>

definition StaticArrayFree :: "build_cfg \<Rightarrow> nat option \<Rightarrow> ArrayArena_S \<Rightarrow> fault + ArrayArena_S" where
  "StaticArrayFree cfg p s =
     (case Helper_FindBlock cfg p s of
        Inl e \<Rightarrow> Inl e
      | Inr None \<Rightarrow> Inr s
      | Inr (Some (blk_sz, blk_idx)) \<Rightarrow>
          (let lst = lists s ! blk_sz;
               blks = (blocks lst)[blk_idx := (blocks lst ! blk_idx)\<lparr>is_free := True\<rparr>]
           in Inr (s\<lparr>lists := (lists s)[blk_sz := lst\<lparr>blocks := blks\<rparr>],
                     space_available :=
                       size_t_add (space_available s) (BlockSize_E_to_Int ! blk_sz)\<rparr>)))"

definition StaticArrayIsAlloc :: "build_cfg \<Rightarrow> nat option \<Rightarrow> ArrayArena_S \<Rightarrow> fault + bool" where
  "StaticArrayIsAlloc cfg p s =
     (case Helper_FindBlock cfg p s of
        Inl e \<Rightarrow> Inl e
      | Inr None \<Rightarrow> Inr False
      | Inr (Some (blk_sz, blk_idx)) \<Rightarrow> Inr (\<not> is_free (blocks (lists s ! blk_sz) ! blk_idx)))"

subsection \<open>StaticArrayRealloc\<close>

text \<open>
  \<^verbatim>\<open>memcpy\<close> on the pool: \<open>n\<close> bytes from offset \<open>src\<close> to offset \<open>dst\<close>. Reading or
  writing past the pool and copying between overlapping ranges are faults.
\<close>

definition memcpy ::
  "build_cfg \<Rightarrow> (nat \<Rightarrow> 8 word) \<Rightarrow> nat \<Rightarrow> nat \<Rightarrow> nat \<Rightarrow> fault + (nat \<Rightarrow> 8 word)" where
  "memcpy cfg pool dst src n =
     (if VEC_ARRAY_ARENA_SIZE cfg < dst + n \<or> VEC_ARRAY_ARENA_SIZE cfg < src + n
        then Inl UndefinedBehaviour
      else if 0 < n \<and> dst < src + n \<and> src < dst + n then Inl UndefinedBehaviour
      else Inr (\<lambda>k. if dst \<le> k \<and> k < dst + n then pool (src + (k - dst)) else pool k))"

definition StaticArrayRealloc ::
  "build_cfg \<Rightarrow> nat option \<Rightarrow> nat \<Rightarrow> ArrayArena_S \<times> (nat \<Rightarrow> 8 word) \<Rightarrow>
   fault + (nat option \<times> ArrayArena_S \<times> (nat \<Rightarrow> 8 word))" where
  "StaticArrayRealloc cfg p req_bytes sp =
     (case sp of (s, pool) \<Rightarrow>
      (case Helper_FindBlock cfg p s of
         Inl e \<Rightarrow> Inl e
       | Inr None \<Rightarrow> Inr (None, s, pool)
       | Inr (Some (old_blk_sz, old_blk_idx)) \<Rightarrow>
           (if is_free (blocks (lists s ! old_blk_sz) ! old_blk_idx) then Inr (None, s, pool)
            else if block_size (lists s ! old_blk_sz) div 2 < req_bytes
                    \<and> req_bytes \<le> block_size (lists s ! old_blk_sz)
              then Inr (p, s, pool)
            else if 0 = req_bytes then
              (case StaticArrayFree cfg p s of
                 Inl e \<Rightarrow> Inl e
               | Inr s' \<Rightarrow> Inr (None, s', pool))
            else
              (case StaticArrayAlloc cfg req_bytes s of
                 Inl e \<Rightarrow> Inl e
               | Inr (None, s1) \<Rightarrow> Inr (p, s1, pool)
               | Inr (Some tmp, s1) \<Rightarrow>
                   (let old_blk_size = BlockSize_E_to_Int ! old_blk_sz;
                        num_of_bytes =
                          (if old_blk_size < req_bytes then old_blk_size else req_bytes)
                    in case p of
                         None \<Rightarrow> Inl UndefinedBehaviour
                       | Some q \<Rightarrow>
                           (case memcpy cfg pool tmp q num_of_bytes of
                              Inl e \<Rightarrow> Inl e
                            | Inr pool' \<Rightarrow>
                                (case StaticArrayFree cfg p s1 of
                                   Inl e \<Rightarrow> Inl e
                                 | Inr s2 \<Rightarrow> Inr (Some tmp, s2, pool'))))))))"

subsection \<open>Programs: Init followed by a sequence of calls\<close>

datatype call =
  Alloc nat
| Realloc "nat option" nat
| Free "nat option"
| IsAllocated "nat option"

datatype ret = RetPtr "nat option" | RetVoid | RetBool bool

definition do_call ::
  "build_cfg \<Rightarrow> call \<Rightarrow> ArrayArena_S \<times> (nat \<Rightarrow> 8 word) \<Rightarrow>
   fault + (ret \<times> ArrayArena_S \<times> (nat \<Rightarrow> 8 word))" where
  "do_call cfg c sp =
     (case sp of (s, pool) \<Rightarrow>
      (case c of
         Alloc n \<Rightarrow>
           (case StaticArrayAlloc cfg n s of
              Inl e \<Rightarrow> Inl e
            | Inr (p, s') \<Rightarrow> Inr (RetPtr p, s', pool))
       | Realloc p n \<Rightarrow>
           (case StaticArrayRealloc cfg p n (s, pool) of
              Inl e \<Rightarrow> Inl e
            | Inr (q, s', pool') \<Rightarrow> Inr (RetPtr q, s', pool'))
       | Free p \<Rightarrow>
           (case StaticArrayFree cfg p s of
              Inl e \<Rightarrow> Inl e
            | Inr s' \<Rightarrow> Inr (RetVoid, s', pool))
       | IsAllocated p \<Rightarrow>
           (case StaticArrayIsAlloc cfg p s of
              Inl e \<Rightarrow> Inl e
            | Inr b \<Rightarrow> Inr (RetBool b, s, pool))))"

fun run_calls ::
  "build_cfg \<Rightarrow> call list \<Rightarrow> ArrayArena_S \<times> (nat \<Rightarrow> 8 word) \<Rightarrow>
   fault + (ret list \<times> ArrayArena_S \<times> (nat \<Rightarrow> 8 word))" where
  "run_calls cfg [] sp = Inr ([], sp)"
| "run_calls cfg (c # cs) sp =
     (case do_call cfg c sp of
        Inl e \<Rightarrow> Inl e
      | Inr (r, sp') \<Rightarrow>
          (case run_calls cfg cs sp' of
             Inl e \<Rightarrow> Inl e
           | Inr (rs, sp'') \<Rightarrow> Inr (r # rs, sp'')))"

text \<open>
  A program starts from the static initialisers, calls \<^verbatim>\<open>StaticArrayPoolInit\<close> once
  and then makes the given calls in order. Its result is the list of return values and
  the final arena and pool, or the fault that ended it.
\<close>

definition program ::
  "build_cfg \<Rightarrow> call list \<Rightarrow> fault + (ret list \<times> ArrayArena_S \<times> (nat \<Rightarrow> 8 word))" where
  "program cfg calls =
     (case StaticArrayPoolInit cfg (ArrayArena cfg) of
        Inl e \<Rightarrow> Inl e
      | Inr s \<Rightarrow> run_calls cfg calls (s, ArrayArenaPool))"

definition release_build :: "nat \<Rightarrow> build_cfg" where
  "release_build A = \<lparr>VEC_ARRAY_ARENA_SIZE = A, NDEBUG = True\<rparr>"

definition debug_build :: "nat \<Rightarrow> build_cfg" where
  "debug_build A = \<lparr>VEC_ARRAY_ARENA_SIZE = A, NDEBUG = False\<rparr>"

subsection \<open>Observations and predicates on the arena\<close>

text \<open>The live descriptors of a list: those at an index below its length.\<close>

definition live :: "ArrayPoolBlockList_S \<Rightarrow> ArrayPoolBlock_S list" where
  "live l = take (len l) (blocks l)"

definition descriptors :: "ArrayArena_S \<Rightarrow> (nat option \<times> bool) list list" where
  "descriptors s = map (\<lambda>l. map (\<lambda>b. (ptr b, is_free b)) (live l)) (lists s)"

definition observe ::
  "fault + (ret list \<times> ArrayArena_S \<times> (nat \<Rightarrow> 8 word)) \<Rightarrow>
   fault + (ret list \<times> (nat option \<times> bool) list list \<times> nat)" where
  "observe r =
     (case r of
        Inl e \<Rightarrow> Inl e
      | Inr (rets, s, pool) \<Rightarrow> Inr (rets, descriptors s, space_available s))"

text \<open>The bytes of all allocated live blocks, each counted with its list's block size.\<close>

definition allocated_bytes :: "ArrayArena_S \<Rightarrow> nat" where
  "allocated_bytes s =
     sum_list (map (\<lambda>l. block_size l * length (filter (\<lambda>b. \<not> is_free b) (live l))) (lists s))"

text \<open>The address ranges of the live descriptors, and whether two of them overlap.\<close>

definition ranges :: "ArrayArena_S \<Rightarrow> (nat option \<times> nat) list" where
  "ranges s = concat (map (\<lambda>l. map (\<lambda>b. (ptr b, block_size l)) (live l)) (lists s))"

definition overlap :: "nat option \<times> nat \<Rightarrow> nat option \<times> nat \<Rightarrow> bool" where
  "overlap r q =
     (case (fst r, fst q) of
        (Some a, Some b) \<Rightarrow> a < b + snd q \<and> b < a + snd r
      | _ \<Rightarrow> False)"

fun no_overlap :: "(nat option \<times> nat) list \<Rightarrow> bool" where
  "no_overlap [] = True"
| "no_overlap (r # rs) = (list_all (\<lambda>q. \<not> overlap r q) rs \<and> no_overlap rs)"

text \<open>The positions of the live descriptors whose address is \<open>p\<close>, in lookup order.\<close>

definition matches :: "ArrayArena_S \<Rightarrow> nat option \<Rightarrow> (nat \<times> nat) list" where
  "matches s p =
     filter (\<lambda>(sz, i). ptr (blocks (lists s ! sz) ! i) = p) (positions (lists s))"

definition no_free_block :: "ArrayPoolBlockList_S \<Rightarrow> bool" where
  "no_free_block l = list_all (\<lambda>b. \<not> is_free b) (live l)"

text \<open>
  The shape every run keeps: six lists with the block sizes of the table, each length
  within its array, every live descriptor with a pool address, and the arena marked
  initialised.
\<close>

definition wf_list :: "ArrayPoolBlockList_S \<Rightarrow> bool" where
  "wf_list l = (len l \<le> length (blocks l) \<and> list_all (\<lambda>b. ptr b \<noteq> None) (live l))"

definition wf :: "ArrayArena_S \<Rightarrow> bool" where
  "wf s = (length (lists s) = NUM_OF_BLOCK_SIZES
           \<and> map block_size (lists s) = BlockSize_E_to_Int
           \<and> list_all wf_list (lists s)
           \<and> arena_initialized s)"

section \<open>Properties\<close>

lemma size_t_sub_0: "size_t_sub a 0 = a"
  by (simp add: size_t_sub_def)

subsection \<open>Lists and descriptors\<close>

lemma list_all_update:
  "list_all P xs \<Longrightarrow> (i < length xs \<Longrightarrow> P x) \<Longrightarrow> list_all P (xs[i := x])"
  by (induction xs arbitrary: i) (auto split: nat.splits)

lemma take_update_two:
  "n + 1 < length xs \<Longrightarrow> take (n + 2) (xs[n := x, n + 1 := y]) = take n xs @ [x, y]"
  by (induction xs arbitrary: n) (auto split: nat.splits simp: take_Suc_conv_app_nth)

lemma wf_list_alt:
  "wf_list l \<longleftrightarrow> len l \<le> length (blocks l) \<and> (\<forall>i<len l. ptr (blocks l ! i) \<noteq> None)"
  by (auto simp: wf_list_def live_def list_all_length)

lemma map_ptr_update_flag:
  "map ptr (blks[i := (blks ! i)\<lparr>is_free := b\<rparr>]) = map ptr blks"
  by (cases "i < length blks") (simp_all add: map_update list_update_same_conv list_update_beyond not_less)

lemma nth_ptr_update_flag:
  "ptr (blks[i := (blks ! i)\<lparr>is_free := b\<rparr>] ! j) = ptr (blks ! j)"
  by (cases "i < length blks"; cases "j = i") (simp_all add: list_update_beyond not_less)

lemma wf_list_cong:
  "wf_list l \<Longrightarrow> len l' = len l \<Longrightarrow> map ptr (blocks l') = map ptr (blocks l) \<Longrightarrow> wf_list l'"
proof -
  assume a: "wf_list l" "len l' = len l" "map ptr (blocks l') = map ptr (blocks l)"
  have n: "length (blocks l') = length (blocks l)"
    using a(3) by (metis length_map)
  have "\<And>i. i < len l \<Longrightarrow> ptr (blocks l' ! i) = ptr (blocks l ! i)"
    using a n by (metis wf_list_alt nth_map order_less_le_trans)
  then show ?thesis using a n by (simp add: wf_list_alt)
qed

subsection \<open>The scan loop and the split loop\<close>

lemma scan_loop_shape:
  "scan_loop bs is (blks, found, bp, sa) = Inr (blks', found', bp', sa') \<Longrightarrow>
   map ptr blks' = map ptr blks"
  by (induction "is" arbitrary: blks found bp sa)
     (auto split: if_splits simp: map_ptr_update_flag)

lemma scan_loop_not_found:
  "scan_loop bs is (blks, found, bp, sa) = Inr (blks', False, bp', sa') \<Longrightarrow>
   blks' = blks \<and> bp' = bp \<and> sa' = sa \<and> \<not> found"
  by (induction "is" arbitrary: blks found bp sa) (auto split: if_splits)

lemma scan_loop_found_ptr:
  "scan_loop bs is (blks, found, bp, sa) = Inr (blks', found', bp', sa') \<Longrightarrow>
   \<forall>i\<in>set is. ptr (blks ! i) \<noteq> None \<Longrightarrow> found \<longrightarrow> bp \<noteq> None \<Longrightarrow>
   found' \<longrightarrow> bp' \<noteq> None"
proof (induction "is" arbitrary: blks found bp sa)
  case Nil
  then show ?case by simp
next
  case (Cons i "is")
  show ?case
  proof (cases "is_free (blks ! i)")
    case True
    let ?b = "blks[i := (blks ! i)\<lparr>is_free := False\<rparr>]"
    from Cons.prems(1) True
    have run: "scan_loop bs is (?b, True, ptr (blks ! i), bs) = Inr (blks', found', bp', sa')"
      by (simp split: if_splits)
    have "\<forall>j\<in>set is. ptr (?b ! j) \<noteq> None"
      using Cons.prems(2) by (simp add: nth_ptr_update_flag)
    moreover have "ptr (blks ! i) \<noteq> None" using Cons.prems(2) by simp
    ultimately show ?thesis using Cons.IH[OF run] by simp
  next
    case False
    from Cons.prems(1) False
    have run: "scan_loop bs is (blks, found, bp, sa) = Inr (blks', found', bp', sa')"
      by (simp split: if_splits)
    show ?thesis using Cons.IH[OF run] Cons.prems(2,3) by simp
  qed
qed

lemma split_loop_some:
  "split_loop is (larger, lst, found, bp, sa) = Inr (larger', lst', found', bp', sa') \<Longrightarrow>
   bp \<noteq> None \<Longrightarrow> bp' \<noteq> None"
  by (induction "is" arbitrary: larger lst found bp sa)
     (auto split: if_splits option.splits simp: Let_def)

lemma split_loop_none:
  "split_loop is (larger, lst, found, bp, sa) = Inr (larger', lst', found', None, sa') \<Longrightarrow>
   larger' = larger \<and> lst' = lst \<and> found' = found \<and> sa' = sa \<and> bp = None"
proof (induction "is" arbitrary: larger lst found bp sa)
  case Nil
  then show ?case by simp
next
  case (Cons i "is")
  show ?case
  proof (cases "is_free (blocks larger ! i)")
    case False
    with Cons.prems have "split_loop is (larger, lst, found, bp, sa) = Inr (larger', lst', found', None, sa')"
      by (simp split: if_splits)
    then show ?thesis by (rule Cons.IH)
  next
    case True
    with Cons.prems obtain l2 s2 f2 a2 q2 where
      "split_loop is (l2, s2, f2, Some a2, q2) = Inr (larger', lst', found', None, sa')"
      by (auto split: if_splits option.splits simp: Let_def)
    then have False using split_loop_some by blast
    then show ?thesis ..
  qed
qed

lemma split_loop_no_free:
  "\<forall>i\<in>set is. i < length (blocks larger) \<and> \<not> is_free (blocks larger ! i) \<Longrightarrow>
   split_loop is (larger, lst, found, bp, sa) = Inr (larger, lst, found, bp, sa)"
  by (induction "is") auto

lemma list_all_take_le:
  "list_all P (take n xs) \<Longrightarrow> m \<le> n \<Longrightarrow> list_all P (take m xs)"
  by (metis list_all_append min.absorb2 take_add le_Suc_ex take_take min.commute)

lemma split_loop_wf:
  "split_loop is (larger, lst, found, bp, sa) = Inr (larger', lst', found', bp', sa') \<Longrightarrow>
   wf_list larger \<Longrightarrow> wf_list lst \<Longrightarrow>
   wf_list larger' \<and> wf_list lst' \<and> block_size larger' = block_size larger
   \<and> block_size lst' = block_size lst"
proof (induction "is" arbitrary: larger lst found bp sa)
  case Nil
  then show ?case by simp
next
  case (Cons i "is")
  show ?case
  proof (cases "is_free (blocks larger ! i)")
    case False
    with Cons.prems have "split_loop is (larger, lst, found, bp, sa) = Inr (larger', lst', found', bp', sa')"
      by (simp split: if_splits)
    then show ?thesis using Cons.IH Cons.prems(2,3) by blast
  next
    case True
    from Cons.prems(1) True have b1: "len lst + 1 < length (blocks lst)"
      by (simp split: if_splits)
    from Cons.prems(1) True obtain a where a: "ptr (blocks larger ! i) = Some a"
      by (auto split: if_splits option.splits)
    let ?larger = "larger\<lparr>len := len larger - 1\<rparr>"
    let ?blks = "(blocks lst)[len lst := \<lparr>ptr = Some a, is_free = False\<rparr>,
                   len lst + 1 := \<lparr>ptr = Some (a + block_size larger), is_free = True\<rparr>]"
    let ?lst = "lst\<lparr>blocks := ?blks, len := len lst + 2\<rparr>"
    from Cons.prems(1) True b1 a
    have run: "split_loop is (?larger, ?lst, True, ptr (blocks ?lst ! (len ?lst - 2)), block_size ?lst)
                 = Inr (larger', lst', found', bp', sa')"
      by (simp split: if_splits add: Let_def)
    have w1: "wf_list ?larger"
      using Cons.prems(2) by (auto simp: wf_list_def live_def intro: list_all_take_le)
    have "take (len lst + 2) ?blks = take (len lst) (blocks lst)
            @ [\<lparr>ptr = Some a, is_free = False\<rparr>,
               \<lparr>ptr = Some (a + block_size larger), is_free = True\<rparr>]"
      using b1 by (rule take_update_two)
    then have w2: "wf_list ?lst"
      using Cons.prems(3) b1 by (simp add: wf_list_def live_def)
    show ?thesis using Cons.IH[OF run w1 w2] by simp
  qed
qed

lemma scan_loop_no_free:
  "\<forall>i\<in>set is. i < length blks \<and> \<not> is_free (blks ! i) \<Longrightarrow>
   scan_loop bs is (blks, found, bp, sa) = Inr (blks, found, bp, sa)"
  by (induction "is") auto

subsection \<open>An Alloc that returns the null pointer\<close>

lemma alloc_in_list_none:
  assumes "alloc_in_list sz s = Inr (None, sa, s')"
    and "\<forall>i<len (lists s ! sz). ptr (blocks (lists s ! sz) ! i) \<noteq> None"
    and "sz < length (lists s)"
  shows "s' = s \<and> sa = 0"
proof -
  let ?lst = "lists s ! sz"
  obtain blks found bp sa0 where
    scan: "scan_loop (block_size ?lst) [0..<len ?lst] (blocks ?lst, False, None, 0)
             = Inr (blks, found, bp, sa0)"
    using assms(1) by (auto simp: alloc_in_list_def Let_def split: sum.splits)
  have fp: "found \<longrightarrow> bp \<noteq> None"
    using scan_loop_found_ptr[OF scan] assms(2) by simp
  show ?thesis
  proof (cases "\<not> found \<and> sz \<noteq> BLKS_LARGEST_SIZE")
    case False
    with assms(1) scan have res: "bp = None" "sa = sa0"
      "s' = s\<lparr>lists := (lists s)[sz := ?lst\<lparr>blocks := blks\<rparr>]\<rparr>"
      by (auto simp: alloc_in_list_def Let_def)
    with fp have "\<not> found" by simp
    with scan have "scan_loop (block_size ?lst) [0..<len ?lst] (blocks ?lst, False, None, 0)
             = Inr (blks, False, bp, sa0)" by simp
    from scan_loop_not_found[OF this] have "blks = blocks ?lst" "sa0 = 0" by simp_all
    with res show ?thesis by simp
  next
    case True
    then have nf: "\<not> found" by simp
    with scan have "scan_loop (block_size ?lst) [0..<len ?lst] (blocks ?lst, False, None, 0)
             = Inr (blks, False, bp, sa0)" by simp
    from scan_loop_not_found[OF this] have same: "blks = blocks ?lst" "sa0 = 0" "bp = None"
      by simp_all
    let ?larger = "lists s ! (sz + 1)"
    from assms(1) scan True obtain larger' lst' found' where
      split: "split_loop (rev [0..<len ?larger]) (?larger, ?lst\<lparr>blocks := blks\<rparr>, found, bp, sa0)
                = Inr (larger', lst', found', None, sa)"
      and res: "s' = s\<lparr>lists := (lists s)[sz := lst', sz + 1 := larger']\<rparr>"
      by (auto simp: alloc_in_list_def Let_def split: sum.splits if_splits)
    from split_loop_none[OF split] same
    have "larger' = ?larger" "lst' = ?lst" "sa = 0" by simp_all
    with res show ?thesis by simp
  qed
qed

lemma alloc_sz_loop_none:
  "alloc_sz_loop req szs s = Inr (None, sa, s') \<Longrightarrow> wf s \<Longrightarrow>
   \<forall>sz\<in>set szs. sz < NUM_OF_BLOCK_SIZES \<Longrightarrow> s' = s \<and> sa = 0"
proof (induction szs)
  case Nil
  then show ?case by simp
next
  case (Cons sz szs)
  show ?case
  proof (cases "req < block_size (lists s ! sz) div 2")
    case True
    with Cons show ?thesis by simp
  next
    case False
    with Cons.prems(1) have run: "alloc_in_list sz s = Inr (None, sa, s')" by simp
    have sz: "sz < length (lists s)" using Cons.prems(2,3) by (simp add: wf_def)
    then have "wf_list (lists s ! sz)"
      using Cons.prems(2) by (simp add: wf_def list_all_length)
    then have "\<forall>i<len (lists s ! sz). ptr (blocks (lists s ! sz) ! i) \<noteq> None"
      by (simp add: wf_list_alt)
    then show ?thesis using alloc_in_list_none[OF run _ sz] by simp
  qed
qed

lemma StaticArrayAlloc_none:
  assumes "StaticArrayAlloc cfg req s = Inr (None, s')" and "wf s"
  shows "s' = s"
proof (cases "space_available s < req")
  case True
  with assms(1) show ?thesis by (simp add: StaticArrayAlloc_def split: if_splits)
next
  case False
  with assms(1) obtain sa s1 where
    run: "alloc_sz_loop req [0..<NUM_OF_BLOCK_SIZES] s = Inr (None, sa, s1)"
    and res: "s' = s1\<lparr>space_available := size_t_sub (space_available s1) sa\<rparr>"
    by (auto simp: StaticArrayAlloc_def split: if_splits sum.splits)
  from alloc_sz_loop_none[OF run assms(2)] have "s1 = s" "sa = 0" by simp_all
  with res show ?thesis by (simp add: size_t_sub_0)
qed

subsection \<open>The calls keep the shape of the arena\<close>

lemma map_block_size_update:
  "i < length ls \<Longrightarrow> block_size l = block_size (ls ! i) \<Longrightarrow>
   map block_size (ls[i := l]) = map block_size ls"
  by (simp add: map_update list_update_same_conv)

lemma wf_nth:
  "wf s \<Longrightarrow> sz < NUM_OF_BLOCK_SIZES \<Longrightarrow> wf_list (lists s ! sz)"
  by (simp add: wf_def list_all_length)

lemma alloc_in_list_wf:
  assumes "alloc_in_list sz s = Inr (bp, sa, s')" and "wf s" and "sz < NUM_OF_BLOCK_SIZES"
  shows "wf s'"
proof -
  let ?lst = "lists s ! sz"
  have n: "length (lists s) = NUM_OF_BLOCK_SIZES" and szl: "sz < length (lists s)"
    using assms(2,3) by (simp_all add: wf_def)
  obtain blks found bp0 sa0 where
    scan: "scan_loop (block_size ?lst) [0..<len ?lst] (blocks ?lst, False, None, 0)
             = Inr (blks, found, bp0, sa0)"
    using assms(1) by (auto simp: alloc_in_list_def Let_def split: sum.splits)
  let ?lst1 = "?lst\<lparr>blocks := blks\<rparr>"
  have "map ptr blks = map ptr (blocks ?lst)" using scan by (rule scan_loop_shape)
  then have w1: "wf_list ?lst1"
    using wf_list_cong[OF wf_nth[OF assms(2,3)], of ?lst1] by simp
  show ?thesis
  proof (cases "\<not> found \<and> sz \<noteq> BLKS_LARGEST_SIZE")
    case False
    with assms(1) scan have res: "s' = s\<lparr>lists := (lists s)[sz := ?lst1]\<rparr>"
      by (auto simp: alloc_in_list_def Let_def)
    have "list_all wf_list ((lists s)[sz := ?lst1])"
      using assms(2) w1 by (simp add: wf_def list_all_update)
    moreover have "map block_size ((lists s)[sz := ?lst1]) = map block_size (lists s)"
      using szl by (simp add: map_block_size_update)
    ultimately show ?thesis using assms(2) res by (simp add: wf_def)
  next
    case True
    let ?larger = "lists s ! (sz + 1)"
    from assms(1) scan True have b: "sz + 1 < NUM_OF_BLOCK_SIZES"
      by (auto simp: alloc_in_list_def Let_def split: sum.splits if_splits)
    from assms(1) scan True obtain larger' lst' found' where
      split: "split_loop (rev [0..<len ?larger]) (?larger, ?lst1, found, bp0, sa0)
                = Inr (larger', lst', found', bp, sa)"
      and res: "s' = s\<lparr>lists := (lists s)[sz := lst', sz + 1 := larger']\<rparr>"
      by (auto simp: alloc_in_list_def Let_def split: sum.splits if_splits)
    from split_loop_wf[OF split wf_nth[OF assms(2) b] w1]
    have w: "wf_list larger'" "wf_list lst'"
      and bs: "block_size larger' = block_size ?larger" "block_size lst' = block_size ?lst"
      by simp_all
    have "list_all wf_list ((lists s)[sz := lst', sz + 1 := larger'])"
      using assms(2) w by (simp add: wf_def list_all_update)
    moreover have "map block_size ((lists s)[sz := lst', sz + 1 := larger']) = map block_size (lists s)"
      using szl b n bs by (simp add: map_block_size_update)
    ultimately show ?thesis using assms(2) res by (simp add: wf_def)
  qed
qed

lemma alloc_sz_loop_wf:
  "alloc_sz_loop req szs s = Inr (bp, sa, s') \<Longrightarrow> wf s \<Longrightarrow>
   \<forall>sz\<in>set szs. sz < NUM_OF_BLOCK_SIZES \<Longrightarrow> wf s'"
  by (induction szs) (auto split: if_splits intro: alloc_in_list_wf)

lemma wf_space_update: "wf (s\<lparr>space_available := n\<rparr>) = wf s"
  by (simp add: wf_def)

lemma StaticArrayAlloc_wf:
  assumes "StaticArrayAlloc cfg req s = Inr (p, s')" and "wf s"
  shows "wf s'"
proof (cases "space_available s < req")
  case True
  with assms show ?thesis by (simp add: StaticArrayAlloc_def split: if_splits)
next
  case False
  with assms(1) obtain sa s1 where
    run: "alloc_sz_loop req [0..<NUM_OF_BLOCK_SIZES] s = Inr (p, sa, s1)"
    and res: "s' = s1\<lparr>space_available := size_t_sub (space_available s1) sa\<rparr>"
    by (auto simp: StaticArrayAlloc_def split: if_splits sum.splits)
  from alloc_sz_loop_wf[OF run assms(2)] have "wf s1" by simp
  with res show ?thesis by (simp add: wf_space_update)
qed

lemma StaticArrayFree_wf:
  assumes "StaticArrayFree cfg p s = Inr s'" and "wf s"
  shows "wf s'"
proof (cases "Helper_FindBlock cfg p s")
  case (Inl e)
  with assms(1) show ?thesis by (simp add: StaticArrayFree_def)
next
  case (Inr r)
  show ?thesis
  proof (cases r)
    case None
    with Inr assms show ?thesis by (simp add: StaticArrayFree_def)
  next
    case (Some m)
    obtain sz idx where m: "m = (sz, idx)" by (cases m)
    let ?lst = "lists s ! sz"
    let ?lst' = "?lst\<lparr>blocks := (blocks ?lst)[idx := (blocks ?lst ! idx)\<lparr>is_free := True\<rparr>]\<rparr>"
    from assms(1) Inr Some m
    have res: "s' = s\<lparr>lists := (lists s)[sz := ?lst'],
                       space_available := size_t_add (space_available s) (BlockSize_E_to_Int ! sz)\<rparr>"
      by (simp add: StaticArrayFree_def Let_def)
    have w: "sz < length (lists s) \<Longrightarrow> wf_list ?lst'"
    proof -
      assume "sz < length (lists s)"
      then have "wf_list ?lst" using assms(2) by (simp add: wf_def list_all_length)
      then show ?thesis
        using wf_list_cong[of ?lst ?lst'] by (simp add: map_ptr_update_flag)
    qed
    have "list_all wf_list ((lists s)[sz := ?lst'])"
      using assms(2) w by (simp add: wf_def list_all_update)
    moreover have "map block_size ((lists s)[sz := ?lst']) = map block_size (lists s)"
      by (cases "sz < length (lists s)") (simp_all add: map_block_size_update list_update_beyond not_less)
    ultimately show ?thesis using assms(2) res by (simp add: wf_def)
  qed
qed

lemma StaticArrayRealloc_wf:
  assumes "StaticArrayRealloc cfg p req (s, pool) = Inr (q, s', pool')" and "wf s"
  shows "wf s'"
  using assms
  by (auto simp: StaticArrayRealloc_def Let_def
      split: sum.splits option.splits if_splits prod.splits
      dest: StaticArrayFree_wf StaticArrayAlloc_wf)

lemma do_call_wf:
  "do_call cfg c (s, pool) = Inr (r, s', pool') \<Longrightarrow> wf s \<Longrightarrow> wf s'"
  by (auto simp: do_call_def split: call.splits sum.splits prod.splits
      dest: StaticArrayFree_wf StaticArrayAlloc_wf StaticArrayRealloc_wf)

lemma run_calls_wf:
  "run_calls cfg cs (s, pool) = Inr (rs, s', pool') \<Longrightarrow> wf s \<Longrightarrow> wf s'"
proof (induction cs arbitrary: s pool rs)
  case Nil
  then show ?case by simp
next
  case (Cons c cs)
  from Cons.prems(1) obtain r s1 pool1 rs1 where
    c: "do_call cfg c (s, pool) = Inr (r, s1, pool1)"
    and rest: "run_calls cfg cs (s1, pool1) = Inr (rs1, s', pool')"
    by (auto split: sum.splits prod.splits)
  from do_call_wf[OF c Cons.prems(2)] have "wf s1" .
  with rest show ?case by (rule Cons.IH)
qed

subsection \<open>Init establishes the shape\<close>

lemma init_blocks_loop_props:
  "init_blocks_loop cfg bs js (blks, off) = Inr (blks', off') \<Longrightarrow>
   length blks' = length blks
   \<and> (\<forall>j<length blks. j \<in> set js \<or> ptr (blks ! j) \<noteq> None \<longrightarrow> ptr (blks' ! j) \<noteq> None)"
proof (induction js arbitrary: blks off)
  case Nil
  then show ?case by simp
next
  case (Cons j js)
  let ?b = "blks[j := \<lparr>ptr = Some off, is_free = True\<rparr>]"
  from Cons.prems have j: "j < length blks"
    and run: "init_blocks_loop cfg bs js (?b, size_t_add off bs) = Inr (blks', off')"
    by (simp_all split: if_splits)
  note ih0 = Cons.IH[OF run]
  have len: "length blks' = length blks" using ih0 by simp
  have ih: "ptr (blks' ! k) \<noteq> None"
    if "k < length blks" "k \<in> set js \<or> ptr (?b ! k) \<noteq> None" for k
    using ih0 that by (metis length_list_update)
  have "ptr (blks' ! k) \<noteq> None"
    if k: "k < length blks" and h: "k \<in> set (j # js) \<or> ptr (blks ! k) \<noteq> None" for k
  proof (cases "k = j")
    case True
    then have "ptr (?b ! k) \<noteq> None" using j by simp
    then show ?thesis using ih k by blast
  next
    case False
    then have "ptr (?b ! k) = ptr (blks ! k)" by simp
    then show ?thesis using ih[OF k] h False by auto
  qed
  with len show ?case by blast
qed

lemma init_lists_loop_wf:
  "init_lists_loop cfg ls off = Inr (ls', off') \<Longrightarrow>
   \<forall>l\<in>set ls. len l \<le> length (blocks l) \<Longrightarrow>
   list_all wf_list ls' \<and> map block_size ls' = map block_size ls \<and> length ls' = length ls"
proof (induction ls arbitrary: off ls')
  case Nil
  then show ?case by simp
next
  case (Cons l ls)
  from Cons.prems(1) obtain blks off1 ls1 where
    b: "init_blocks_loop cfg (block_size l) [0..<len l] (blocks l, off) = Inr (blks, off1)"
    and r: "init_lists_loop cfg ls off1 = Inr (ls1, off')"
    and res: "ls' = l\<lparr>blocks := blks\<rparr> # ls1"
    by (auto split: sum.splits prod.splits)
  from init_blocks_loop_props[OF b] Cons.prems(2)
  have "wf_list (l\<lparr>blocks := blks\<rparr>)"
    by (simp add: wf_list_alt)
  moreover from Cons.IH[OF r] Cons.prems(2)
  have "list_all wf_list ls1 \<and> map block_size ls1 = map block_size ls \<and> length ls1 = length ls"
    by simp
  ultimately show ?case using res by simp
qed

lemma ArrayArena_lens:
  "\<forall>l\<in>set (lists (ArrayArena cfg)). len l \<le> length (blocks l)"
proof -
  have "\<And>A m k::nat. (A mod m) div k \<le> A div k + 1"
    by (meson div_le_mono mod_less_eq_dividend trans_le_add1)
  then show ?thesis
    by (simp add: ArrayArena_def Let_def zero_blocks_def
        BLOCKS_1024_LIST_CAPACITY_def BLOCKS_512_LIST_CAPACITY_def BLOCKS_256_LIST_CAPACITY_def
        BLOCKS_128_LIST_CAPACITY_def BLOCKS_64_LIST_CAPACITY_def BLOCKS_32_LIST_CAPACITY_def
        BLOCKS_1024_LIST_INIT_LEN_def BLOCKS_512_LIST_INIT_LEN_def BLOCKS_256_LIST_INIT_LEN_def
        BLOCKS_128_LIST_INIT_LEN_def BLOCKS_64_LIST_INIT_LEN_def BLOCKS_32_LIST_INIT_LEN_def)
qed

lemma StaticArrayPoolInit_wf:
  assumes "StaticArrayPoolInit cfg (ArrayArena cfg) = Inr s"
  shows "wf s"
proof -
  from assms obtain ls off where
    run: "init_lists_loop cfg (lists (ArrayArena cfg)) 0 = Inr (ls, off)"
    and res: "s = (ArrayArena cfg)\<lparr>lists := ls, arena_initialized := True\<rparr>"
    by (auto simp: StaticArrayPoolInit_def split: if_splits sum.splits prod.splits)
  from init_lists_loop_wf[OF run ArrayArena_lens]
  have "list_all wf_list ls" "map block_size ls = map block_size (lists (ArrayArena cfg))"
    "length ls = length (lists (ArrayArena cfg))" by simp_all
  moreover have "map block_size (lists (ArrayArena cfg)) = BlockSize_E_to_Int"
    "length (lists (ArrayArena cfg)) = NUM_OF_BLOCK_SIZES"
    by (simp_all add: ArrayArena_def Let_def BlockSize_E_to_Int_def NUM_OF_BLOCK_SIZES_def)
  ultimately show ?thesis using res by (simp add: wf_def)
qed

lemma program_wf:
  "program cfg calls = Inr (rets, s, pool) \<Longrightarrow> wf s"
  by (auto simp: program_def split: sum.splits dest: StaticArrayPoolInit_wf run_calls_wf)

subsection \<open>The lookup of an address held by one descriptor\<close>

lemma positions_bounds:
  "(sz, i) \<in> set (positions ls) \<Longrightarrow> sz < NUM_OF_BLOCK_SIZES \<and> i < len (ls ! sz)"
  by (auto simp: positions_def)

lemma wf_positions_in_bounds:
  "wf s \<Longrightarrow> (sz, i) \<in> set (positions (lists s)) \<Longrightarrow> i < length (blocks (lists s ! sz))"
  using positions_bounds wf_nth wf_list_alt by (metis order_less_le_trans)

lemma find_loop_no_match:
  "\<forall>(sz, i)\<in>set pos. i < length (blocks (ls ! sz)) \<Longrightarrow>
   filter (\<lambda>(sz, i). ptr (blocks (ls ! sz) ! i) = p) pos = [] \<Longrightarrow>
   find_loop cfg ls p pos acc = Inr (if NDEBUG cfg then None else acc)"
  by (induction pos) (auto split: if_splits)

lemma find_loop_one_match:
  "\<forall>(sz, i)\<in>set pos. i < length (blocks (ls ! sz)) \<Longrightarrow>
   filter (\<lambda>(sz, i). ptr (blocks (ls ! sz) ! i) = p) pos = [m] \<Longrightarrow>
   find_loop cfg ls p pos None = Inr (Some m)"
proof (induction pos)
  case Nil
  then show ?case by simp
next
  case (Cons x pos)
  obtain sz i where x: "x = (sz, i)" by (cases x)
  have b: "i < length (blocks (ls ! sz))" and bs: "\<forall>(sz, i)\<in>set pos. i < length (blocks (ls ! sz))"
    using Cons.prems(1) x by auto
  show ?case
  proof (cases "ptr (blocks (ls ! sz) ! i) = p")
    case True
    with Cons.prems(2) x have m: "m = (sz, i)"
      and rest: "filter (\<lambda>(sz, i). ptr (blocks (ls ! sz) ! i) = p) pos = []"
      by simp_all
    show ?thesis
      using True b x m find_loop_no_match[OF bs rest, of cfg "Some (sz, i)"] by simp
  next
    case False
    with Cons.prems(2) x have "filter (\<lambda>(sz, i). ptr (blocks (ls ! sz) ! i) = p) pos = [m]"
      by simp
    from Cons.IH[OF bs this] show ?thesis using False b x by simp
  qed
qed

lemma Helper_FindBlock_unique:
  assumes "wf s" and "matches s (Some a) = [(sz, idx)]"
  shows "Helper_FindBlock cfg (Some a) s = Inr (Some (sz, idx))"
proof -
  have "\<forall>(sz, i)\<in>set (positions (lists s)). i < length (blocks (lists s ! sz))"
    using wf_positions_in_bounds[OF assms(1)] by auto
  from find_loop_one_match[OF this, of "Some a" "(sz, idx)" cfg] assms
  show ?thesis by (simp add: Helper_FindBlock_def matches_def wf_def)
qed

subsection \<open>Lists without a free block\<close>

lemma wf_block_size:
  "wf s \<Longrightarrow> sz < NUM_OF_BLOCK_SIZES \<Longrightarrow> block_size (lists s ! sz) = BlockSize_E_to_Int ! sz"
  by (metis wf_def nth_map)

lemma wf_sizes_check:
  "wf s \<Longrightarrow> \<not> sizes_check (block_size (lists s ! 0)) (tl (lists s))"
  by (auto simp: wf_def BlockSize_E_to_Int_def map_eq_Cons_conv)

lemma upt_NUM_OF_BLOCK_SIZES: "[0..<NUM_OF_BLOCK_SIZES] = [0, 1, 2, 3, 4, 5]"
  by code_simp

lemma no_free_block_nth:
  "wf_list l \<Longrightarrow> no_free_block l \<Longrightarrow>
   \<forall>i\<in>set [0..<len l]. i < length (blocks l) \<and> \<not> is_free (blocks l ! i)"
  by (auto simp: wf_list_def no_free_block_def live_def list_all_length)

lemma alloc_in_list_no_free:
  assumes "wf s" and "sz + 1 < NUM_OF_BLOCK_SIZES"
    and "no_free_block (lists s ! sz)" and "no_free_block (lists s ! (sz + 1))"
  shows "alloc_in_list sz s = Inr (None, 0, s)"
proof -
  have sz: "sz < NUM_OF_BLOCK_SIZES" using assms(2) by simp
  have a: "\<forall>i\<in>set [0..<len (lists s ! sz)].
             i < length (blocks (lists s ! sz)) \<and> \<not> is_free (blocks (lists s ! sz) ! i)"
    using no_free_block_nth[OF wf_nth[OF assms(1) sz] assms(3)] .
  have b: "\<forall>i\<in>set (rev [0..<len (lists s ! (sz + 1))]).
             i < length (blocks (lists s ! (sz + 1))) \<and> \<not> is_free (blocks (lists s ! (sz + 1)) ! i)"
    using no_free_block_nth[OF wf_nth[OF assms(1,2)] assms(4)] by simp
  have sp: "split_loop (rev [0..<len (lists s ! Suc sz)])
              (lists s ! Suc sz, lists s ! sz, False, None, 0)
            = Inr (lists s ! Suc sz, lists s ! sz, False, None, 0)"
    using split_loop_no_free[OF b] by simp
  show ?thesis
    using assms(2)
    by (simp add: alloc_in_list_def Let_def scan_loop_no_free[OF a] sp)
qed

subsection \<open>Realloc on the descriptor the lookup finds, and the debug build\<close>

lemma debug_alloc_returns_null:
  assumes "\<not> NDEBUG cfg" and "wf s" and "StaticArrayAlloc cfg req_bytes s = Inr (p, s')"
  shows "p = None \<and> s' = s"
  using assms wf_sizes_check[OF assms(2)]
  by (simp add: StaticArrayAlloc_def split: if_splits)

lemma realloc_best_fit_of_found_descriptor:
  assumes "Helper_FindBlock cfg p s = Inr (Some (sz, idx))"
    and "\<not> is_free (blocks (lists s ! sz) ! idx)"
    and "block_size (lists s ! sz) div 2 < req_bytes"
    and "req_bytes \<le> block_size (lists s ! sz)"
  shows "StaticArrayRealloc cfg p req_bytes (s, pool) = Inr (p, s, pool)"
  using assms by (simp add: StaticArrayRealloc_def)

section \<open>The claims\<close>

subsection \<open>C1: the direct hit\<close>

text \<open>
  Claim C1 says that on a direct hit Alloc returns the first free block of the selected
  list and marks exactly that block allocated. The scan of lines 194 to 203 has no
  \<^verbatim>\<open>break\<close>, although the comment above it speaks of allocating from the beginning
  of the list: with an arena of 2048 bytes (two free 1024-byte blocks at offsets 0 and
  1024) the release build answers \<^verbatim>\<open>StaticArrayAlloc(1000)\<close> with offset 1024, the
  last free block, and clears the free flag of both blocks, while
  \<^verbatim>\<open>space_available\<close> drops by one block only.
\<close>

theorem alloc_direct_hit_takes_every_free_block:
  "observe (program (release_build 2048) []) =
     Inr ([], [[(Some 0, True), (Some 1024, True)], [], [], [], [], []], 2048)
   \<and> observe (program (release_build 2048) [Alloc 1000]) =
     Inr ([RetPtr (Some 1024)],
          [[(Some 0, False), (Some 1024, False)], [], [], [], [], []], 1024)"
  by code_simp

subsection \<open>C2: space accounting\<close>

text \<open>
  Claim C2 says that \<^verbatim>\<open>space_available\<close> plus the bytes of the allocated blocks
  always equals the arena size less its remainder modulo 32. After Init and
  \<^verbatim>\<open>StaticArrayAlloc(1000)\<close> on an arena of 2048 bytes the release build has
  \<^verbatim>\<open>space_available\<close> at 1024 and 2048 bytes in allocated blocks: the sum is 3072,
  not 2048.
\<close>

theorem space_accounting_broken_after_alloc:
  "(case program (release_build 2048) [Alloc 1000] of
      Inl e \<Rightarrow> None
    | Inr (rets, s, pool) \<Rightarrow> Some (space_available s, allocated_bytes s)) = Some (1024, 2048)"
  by code_simp

subsection \<open>C3: no two live descriptors overlap\<close>

text \<open>
  Claim C3 says that live descriptors never overlap. The split path reads
  \<^verbatim>\<open>lists[sz + 1]\<close>, which in the descending table is the next smaller class, not
  the larger one its comments and the name \<^verbatim>\<open>larger_size_list\<close> speak of. With an
  arena of 2304 bytes (two 1024-byte blocks and one 256-byte block at offset 2048),
  \<^verbatim>\<open>StaticArrayAlloc(300)\<close> selects the empty 512-byte list, takes the free 256-byte
  block and appends two 512-byte descriptors at offsets 2048 and 2304: they overlap each
  other, and both reach past the end of the arena.
\<close>

theorem split_makes_overlapping_descriptors:
  "observe (program (release_build 2304) []) =
     Inr ([], [[(Some 0, True), (Some 1024, True)], [], [(Some 2048, True)], [], [], []], 2304)
   \<and> observe (program (release_build 2304) [Alloc 300]) =
     Inr ([RetPtr (Some 2048)],
          [[(Some 0, True), (Some 1024, True)], [(Some 2048, False), (Some 2304, True)],
           [], [], [], []],
          1792)
   \<and> (case program (release_build 2304) [Alloc 300] of
        Inl e \<Rightarrow> False
      | Inr (rets, s, pool) \<Rightarrow>
          ranges s = [(Some 0, 1024), (Some 1024, 1024), (Some 2048, 512), (Some 2304, 512)]
          \<and> overlap (Some 2048, 512) (Some 2304, 512) \<and> \<not> no_overlap (ranges s))"
  by code_simp

subsection \<open>C4: the selected class\<close>

text \<open>
  Claim C4 says that Alloc selects the smallest class that holds the request, so that a
  block of class size \<open>c\<close> answers a request \<open>n\<close> with \<open>c / 2 < n \<le> c\<close>. Line 186
  skips a list only when the request is strictly below half its block size, so a request
  of exactly half a block size stays in the larger class: with an arena of 768 bytes
  (one free 512-byte block at offset 0, one free 256-byte block at offset 512),
  \<^verbatim>\<open>StaticArrayAlloc(256)\<close> returns the 512-byte block and leaves the 256-byte block
  free.
\<close>

theorem alloc_half_class_size_takes_larger_class:
  "observe (program (release_build 768) []) =
     Inr ([], [[], [(Some 0, True)], [(Some 512, True)], [], [], []], 768)
   \<and> observe (program (release_build 768) [Alloc 256]) =
     Inr ([RetPtr (Some 0)], [[], [(Some 0, False)], [(Some 512, True)], [], [], []], 256)"
  by code_simp

subsection \<open>C5: splitting across several classes\<close>

text \<open>
  Claim C5 says that the split recurses upward through as many larger classes as needed,
  so that \<^verbatim>\<open>StaticArrayAlloc(32)\<close> succeeds when the only free block is one of 1024
  bytes. The split path looks at one other list and no further (the comment at line 208
  leaves the loop over the classes as future work). Counterexample to C5: with an arena
  of 1024 bytes, Init leaves one free 1024-byte block and nothing else, and the release
  build answers \<^verbatim>\<open>StaticArrayAlloc(32)\<close> with \<^verbatim>\<open>NULL\<close>, the arena as it was.
\<close>

theorem alloc_32_no_multi_level_split:
  "observe (program (release_build 1024) []) =
     Inr ([], [[(Some 0, True)], [], [], [], [], []], 1024)
   \<and> observe (program (release_build 1024) [Alloc 32]) =
     Inr ([RetPtr None], [[(Some 0, True)], [], [], [], [], []], 1024)"
  by code_simp

text \<open>
  Claim C5 as amended: the split does not recurse upward through the larger classes.
  After Init and any calls, in a state where no list other than the 1024-byte list holds
  a free block, every request of 32 to 255 bytes (it selects the 64-, 128- or 256-byte
  list, two classes or more below 1024) returns \<^verbatim>\<open>NULL\<close> and leaves the arena
  unchanged, whatever the 1024-byte list holds; in particular
  \<^verbatim>\<open>StaticArrayAlloc(32)\<close> does not succeed by a multi-level split. That is the
  release build, and the debug build when the request exceeds \<^verbatim>\<open>space_available\<close>;
  otherwise the debug build stops at the assertion of line 171.
\<close>

theorem alloc_never_splits_across_two_classes:
  assumes "program cfg calls = Inr (rets, s, pool)"
    and "list_all no_free_block (tl (lists s))"
    and "32 \<le> req_bytes" and "req_bytes < 256"
  shows "StaticArrayAlloc cfg req_bytes s =
           (if NDEBUG cfg \<or> space_available s < req_bytes then Inr (None, s)
            else Inl AssertionFailed)"
proof -
  have w: "wf s" using assms(1) by (rule program_wf)
  have n: "length (lists s) = 6" using w by (simp add: wf_def NUM_OF_BLOCK_SIZES_def)
  have nfk: "no_free_block (lists s ! k)" if "1 \<le> k" "k < 6" for k
  proof -
    have "k - 1 < length (tl (lists s))" using that n by simp
    then have "no_free_block (tl (lists s) ! (k - 1))"
      using assms(2) by (simp add: list_all_length)
    then show ?thesis using that n by (simp add: nth_tl)
  qed
  have nf: "no_free_block (lists s ! 2)" "no_free_block (lists s ! (2 + 1))"
    "no_free_block (lists s ! 3)" "no_free_block (lists s ! (3 + 1))"
    "no_free_block (lists s ! 4)" "no_free_block (lists s ! (4 + 1))"
    by (simp_all add: nfk)
  have bs: "block_size (lists s ! 0) = 1024" "block_size (lists s ! 1) = 512"
    "block_size (lists s ! 2) = 256" "block_size (lists s ! 3) = 128"
    "block_size (lists s ! 4) = 64"
    using wf_block_size[OF w] by (simp_all add: NUM_OF_BLOCK_SIZES_def BlockSize_E_to_Int_def)
  have a2: "alloc_in_list 2 s = Inr (None, 0, s)"
    using alloc_in_list_no_free[OF w _ nf(1,2)] by (simp add: NUM_OF_BLOCK_SIZES_def)
  have a3: "alloc_in_list 3 s = Inr (None, 0, s)"
    using alloc_in_list_no_free[OF w _ nf(3,4)] by (simp add: NUM_OF_BLOCK_SIZES_def)
  have a4: "alloc_in_list 4 s = Inr (None, 0, s)"
    using alloc_in_list_no_free[OF w _ nf(5,6)] by (simp add: NUM_OF_BLOCK_SIZES_def)
  have loop: "alloc_sz_loop req_bytes [0..<NUM_OF_BLOCK_SIZES] s = Inr (None, 0, s)"
  proof -
    consider "req_bytes < 64" | "64 \<le> req_bytes" "req_bytes < 128" | "128 \<le> req_bytes"
      by linarith
    then show ?thesis
    proof cases
      case 1
      then show ?thesis using assms(3) bs a4 by (simp add: upt_NUM_OF_BLOCK_SIZES)
    next
      case 2
      then show ?thesis using bs a3 by (simp add: upt_NUM_OF_BLOCK_SIZES)
    next
      case 3
      then show ?thesis using assms(4) bs a2 by (simp add: upt_NUM_OF_BLOCK_SIZES)
    qed
  qed
  have init: "arena_initialized s" using w by (simp add: wf_def)
  show ?thesis
    using loop init wf_sizes_check[OF w] assms(4)
    by (simp add: StaticArrayAlloc_def size_t_sub_0 not_less)
qed

text \<open>
  The theorem at the counterexample's state: the arena of 1024 bytes after Init, with its
  one free 1024-byte block, and a request of 32 bytes.
\<close>

theorem alloc_never_splits_across_two_classes_witness:
  "\<exists>rets s pool. program (release_build 1024) [] = Inr (rets, s, pool)
     \<and> descriptors s = [[(Some 0, True)], [], [], [], [], []]
     \<and> StaticArrayAlloc (release_build 1024) 32 s = Inr (None, s)"
proof -
  have ev: "(case program (release_build 1024) [] of
               Inl e \<Rightarrow> False
             | Inr (rets, s, pool) \<Rightarrow>
                 descriptors s = [[(Some 0, True)], [], [], [], [], []]
                 \<and> list_all no_free_block (tl (lists s)))"
    by code_simp
  then obtain rets s pool where
    run: "program (release_build 1024) [] = Inr (rets, s, pool)"
    and d: "descriptors s = [[(Some 0, True)], [], [], [], [], []]"
    and nf: "list_all no_free_block (tl (lists s))"
    by (auto split: sum.splits prod.splits)
  have lo: "(32::nat) \<le> 32" and hi: "(32::nat) < 256" by simp_all
  from alloc_never_splits_across_two_classes[OF run nf lo hi]
  have "StaticArrayAlloc (release_build 1024) 32 s = Inr (None, s)"
    by (simp add: release_build_def)
  with run d show ?thesis by blast
qed

subsection \<open>C6: freeing a free block\<close>

text \<open>
  Claim C6 says that Free on a descriptor that is already free changes nothing.
  \<^verbatim>\<open>StaticArrayFree\<close> does not look at the flag: it sets it and adds the block size
  to \<^verbatim>\<open>space_available\<close> every time. With an arena of 1024 bytes, after
  \<^verbatim>\<open>StaticArrayAlloc(1000)\<close> and one Free of the block \<^verbatim>\<open>space_available\<close> is
  1024; after the second Free of the same address it is 2048, twice the arena.
\<close>

theorem double_free_adds_space_twice:
  "observe (program (release_build 1024) [Alloc 1000, Free (Some 0)]) =
     Inr ([RetPtr (Some 0), RetVoid], [[(Some 0, True)], [], [], [], [], []], 1024)
   \<and> observe (program (release_build 1024) [Alloc 1000, Free (Some 0), Free (Some 0)]) =
     Inr ([RetPtr (Some 0), RetVoid, RetVoid], [[(Some 0, True)], [], [], [], [], []], 2048)"
  by code_simp

subsection \<open>C7: requests above the largest class\<close>

text \<open>
  Claim C7 says that a request above 1024 bytes is refused without touching the arena.
  The only guard is the assertion of line 180. In the release build, with an arena of
  2048 bytes, \<^verbatim>\<open>StaticArrayAlloc(1025)\<close> returns the 1024-byte block at offset 1024
  and marks both 1024-byte blocks allocated, exactly as a request of 1024 bytes does;
  the debug build stops at an assertion.
\<close>

theorem alloc_too_large_returns_block:
  "observe (program (release_build 2048) [Alloc 1025]) =
     Inr ([RetPtr (Some 1024)],
          [[(Some 0, False), (Some 1024, False)], [], [], [], [], []], 1024)
   \<and> observe (program (release_build 2048) [Alloc 1024]) =
     Inr ([RetPtr (Some 1024)],
          [[(Some 0, False), (Some 1024, False)], [], [], [], [], []], 1024)
   \<and> observe (program (debug_build 2048) [Alloc 1025]) = Inl AssertionFailed"
  by code_simp

subsection \<open>C8: Realloc within the current class\<close>

text \<open>
  Claim C8 says that for every allocated block at address \<open>p\<close> of class size \<open>c\<close> a
  request with \<open>c / 2 < req_bytes \<le> c\<close> makes \<^verbatim>\<open>StaticArrayRealloc\<close> return \<open>p\<close>
  and change nothing. \<^verbatim>\<open>StaticArrayRealloc\<close> takes the first descriptor that
  carries the address, and the split path (see C3) can leave one address on two live
  descriptors. With an arena of 2432 bytes (two 1024-byte blocks, a 256-byte block at
  offset 2048 and a 128-byte block at offset 2304), \<^verbatim>\<open>StaticArrayAlloc(300)\<close> turns
  the 256-byte block into 512-byte descriptors at 2048 (allocated) and 2304 (free), and
  \<^verbatim>\<open>StaticArrayAlloc(100)\<close> then hands out the 128-byte block at 2304. Offset 2304 is
  now the address of the free descriptor at position \<open>(1, 1)\<close> and of the allocated
  128-byte block at position \<open>(3, 0)\<close>, and \<^verbatim>\<open>StaticArrayRealloc\<close> of that block
  with 100 bytes, a fit for its class, returns \<^verbatim>\<open>NULL\<close>.
\<close>

theorem realloc_best_fit_fails_on_shared_address:
  "observe (program (release_build 2432) []) =
     Inr ([],
          [[(Some 0, True), (Some 1024, True)], [], [(Some 2048, True)], [(Some 2304, True)],
           [], []],
          2432)
   \<and> observe (program (release_build 2432) [Alloc 300, Alloc 100]) =
     Inr ([RetPtr (Some 2048), RetPtr (Some 2304)],
          [[(Some 0, True), (Some 1024, True)], [(Some 2048, False), (Some 2304, True)], [],
           [(Some 2304, False)], [], []],
          1792)
   \<and> (case program (release_build 2432) [Alloc 300, Alloc 100] of
        Inl e \<Rightarrow> False
      | Inr (rets, s, pool) \<Rightarrow>
          matches s (Some 2304) = [(1, 1), (3, 0)]
          \<and> \<not> is_free (blocks (lists s ! 3) ! 0) \<and> block_size (lists s ! 3) = 128)
   \<and> observe (program (release_build 2432) [Alloc 300, Alloc 100, Realloc (Some 2304) 100]) =
     Inr ([RetPtr (Some 2048), RetPtr (Some 2304), RetPtr None],
          [[(Some 0, True), (Some 1024, True)], [(Some 2048, False), (Some 2304, True)], [],
           [(Some 2304, False)], [], []],
          1792)"
  by code_simp

subsection \<open>C9: Realloc when the inner Alloc fails\<close>

text \<open>
  Claim C9: whenever the call of \<^verbatim>\<open>StaticArrayAlloc\<close> inside
  \<^verbatim>\<open>StaticArrayRealloc\<close> returns \<^verbatim>\<open>NULL\<close>, \<^verbatim>\<open>StaticArrayRealloc\<close> returns
  the address it was given, with the arena and the pool exactly as they were: every
  block allocated before is still allocated, and no byte has moved.
  \<^verbatim>\<open>StaticArrayRealloc\<close> reaches that call exactly when its lookup answers with a
  descriptor \<open>(sz, idx)\<close> that is allocated and the request is neither a fit for that
  descriptor's class nor zero; these are the hypotheses, together with the inner call's
  \<^verbatim>\<open>NULL\<close>, in any state a program reaches after Init. The statement is for the
  release build: in the debug build \<^verbatim>\<open>StaticArrayAlloc\<close> never returns a block
  (\<open>debug_alloc_returns_null\<close>), so there is no allocated descriptor to start from.
\<close>

theorem realloc_failed_alloc_keeps_old_block:
  assumes "NDEBUG cfg"
    and "program cfg calls = Inr (rets, s, pool)"
    and "Helper_FindBlock cfg (Some a) s = Inr (Some (sz, idx))"
    and "\<not> is_free (blocks (lists s ! sz) ! idx)"
    and "\<not> (block_size (lists s ! sz) div 2 < req_bytes \<and> req_bytes \<le> block_size (lists s ! sz))"
    and "req_bytes \<noteq> 0"
    and "StaticArrayAlloc cfg req_bytes s = Inr (None, s1)"
  shows "StaticArrayRealloc cfg (Some a) req_bytes (s, pool') = Inr (Some a, s, pool')"
proof -
  have w: "wf s" using assms(2) by (rule program_wf)
  have "s1 = s" using StaticArrayAlloc_none[OF assms(7) w] .
  then show ?thesis
    using assms(3,4,5,6,7) by (simp add: StaticArrayRealloc_def)
qed

text \<open>
  An instance: the arena of 2048 bytes after \<^verbatim>\<open>StaticArrayAlloc(1000)\<close>, the block at
  offset 1024 and a request of 100 bytes, for which the inner Alloc finds nothing.
\<close>

theorem realloc_failed_alloc_keeps_old_block_witness:
  "\<exists>rets s pool. program (release_build 2048) [Alloc 1000] = Inr (rets, s, pool)
     \<and> descriptors s = [[(Some 0, False), (Some 1024, False)], [], [], [], [], []]
     \<and> StaticArrayRealloc (release_build 2048) (Some 1024) 100 (s, pool)
         = Inr (Some 1024, s, pool)"
proof -
  have ev: "(case program (release_build 2048) [Alloc 1000] of
               Inl e \<Rightarrow> False
             | Inr (rets, s, pool) \<Rightarrow>
                 descriptors s = [[(Some 0, False), (Some 1024, False)], [], [], [], [], []]
                 \<and> Helper_FindBlock (release_build 2048) (Some 1024) s = Inr (Some (0, 1))
                 \<and> \<not> is_free (blocks (lists s ! 0) ! 1)
                 \<and> block_size (lists s ! 0) = 1024
                 \<and> (case StaticArrayAlloc (release_build 2048) 100 s of
                      Inl e \<Rightarrow> False
                    | Inr (p, s') \<Rightarrow> p = None))"
    by code_simp
  then obtain rets s pool s1 where
    run: "program (release_build 2048) [Alloc 1000] = Inr (rets, s, pool)"
    and d: "descriptors s = [[(Some 0, False), (Some 1024, False)], [], [], [], [], []]"
    and f: "Helper_FindBlock (release_build 2048) (Some 1024) s = Inr (Some (0, 1))"
    and a: "\<not> is_free (blocks (lists s ! 0) ! 1)"
    and c: "block_size (lists s ! 0) = 1024"
    and fail: "StaticArrayAlloc (release_build 2048) 100 s = Inr (None, s1)"
    by (auto split: sum.splits prod.splits)
  have nd: "NDEBUG (release_build 2048)" by (simp add: release_build_def)
  have nb: "\<not> (block_size (lists s ! 0) div 2 < 100 \<and> 100 \<le> block_size (lists s ! 0))"
    using c by simp
  have nz: "(100::nat) \<noteq> 0" by simp
  from realloc_failed_alloc_keeps_old_block[OF nd run f a nb nz fail]
  have "StaticArrayRealloc (release_build 2048) (Some 1024) 100 (s, pool)
          = Inr (Some 1024, s, pool)" .
  with run d show ?thesis by blast
qed

subsection \<open>C10: a failed Alloc changes nothing\<close>

text \<open>
  Claim C10: in every state a program reaches after Init, whenever
  \<^verbatim>\<open>StaticArrayAlloc\<close> returns \<^verbatim>\<open>NULL\<close> the arena it leaves is the arena it
  found: every descriptor, every length and \<^verbatim>\<open>space_available\<close>.
\<close>

theorem alloc_failure_leaves_arena_unchanged:
  assumes "program cfg calls = Inr (rets, s, pool)"
    and "StaticArrayAlloc cfg req_bytes s = Inr (None, s')"
  shows "s' = s"
  using StaticArrayAlloc_none[OF assms(2) program_wf[OF assms(1)]] .

text \<open>
  An instance: the arena of 2048 bytes after \<^verbatim>\<open>StaticArrayAlloc(1000)\<close>, where a
  second request of 1000 bytes finds no free 1024-byte block.
\<close>

theorem alloc_failure_leaves_arena_unchanged_witness:
  "\<exists>rets s pool. program (release_build 2048) [Alloc 1000] = Inr (rets, s, pool)
     \<and> StaticArrayAlloc (release_build 2048) 1000 s = Inr (None, s)"
proof -
  have ev: "(case program (release_build 2048) [Alloc 1000] of
               Inl e \<Rightarrow> False
             | Inr (rets, s, pool) \<Rightarrow>
                 (case StaticArrayAlloc (release_build 2048) 1000 s of
                    Inl e \<Rightarrow> False
                  | Inr (p, s') \<Rightarrow> p = None))"
    by code_simp
  then obtain rets s pool s' where
    run: "program (release_build 2048) [Alloc 1000] = Inr (rets, s, pool)"
    and fail: "StaticArrayAlloc (release_build 2048) 1000 s = Inr (None, s')"
    by (auto split: sum.splits prod.splits)
  from alloc_failure_leaves_arena_unchanged[OF run fail] have "s' = s" .
  with run fail show ?thesis by blast
qed

end
